theory Spec2Isabelle
  imports Main
begin

section \<open>Romanian text preprocessor: strings and the Unicode library\<close>

text \<open>
  A Python \<open>str\<close> is a sequence of Unicode code points, so a string is a list of code
  points (natural numbers), not a list of bytes. \<open>ascii\<close> reads an ASCII literal as
  such a string.
\<close>

type_synonym ustring = "nat list"

definition ascii :: "string \<Rightarrow> ustring" where
  "ascii s = map of_char s"

text \<open>
  \<open>str.lower()\<close> and \<open>unicodedata.normalize('NFC', _)\<close> belong to the Python library,
  not to the repository: the preprocessor takes them as a parameter. The universal
  theorems below hold for every pair of library functions.
\<close>

record unicode_lib =
  str_lower :: "ustring \<Rightarrow> ustring"
  normalize_NFC :: "ustring \<Rightarrow> ustring"

text \<open>
  For concrete runs, \<open>py_unicode\<close> is the library restricted to the alphabet of
  Romanian text. \<open>lower_cp\<close> is the lower-case mapping of Basic Latin, Latin-1 and
  the Romanian letters; \<open>compose_pair\<close> is the canonical composition of a base letter
  with one combining mark (circumflex U+0302, breve U+0306, comma below U+0326,
  cedilla U+0327) into a Romanian letter. They agree with Python on every string whose
  code points are below U+0100 or among U+0102, U+0103, U+015E, U+015F, U+0162, U+0163,
  U+0218..U+021B, and in which one of the four marks may occur only directly after a
  base letter that \<open>compose_pair\<close> pairs it with and not before another mark. Code
  points outside this alphabet are left as they are.
\<close>

definition lower_cp :: "nat \<Rightarrow> nat" where
  "lower_cp c =
     (if 0x41 \<le> c \<and> c \<le> 0x5A then c + 32
      else if 0xC0 \<le> c \<and> c \<le> 0xDE \<and> c \<noteq> 0xD7 then c + 32
      else if c = 0x102 \<or> c = 0x15E \<or> c = 0x162 \<or> c = 0x218 \<or> c = 0x21A then c + 1
      else c)"

definition compose_table :: "((nat \<times> nat) \<times> nat) list" where
  "compose_table =
     [((0x61, 0x306), 0x103), ((0x41, 0x306), 0x102),
      ((0x61, 0x302), 0xE2), ((0x41, 0x302), 0xC2),
      ((0x69, 0x302), 0xEE), ((0x49, 0x302), 0xCE),
      ((0x73, 0x326), 0x219), ((0x53, 0x326), 0x218),
      ((0x74, 0x326), 0x21B), ((0x54, 0x326), 0x21A),
      ((0x73, 0x327), 0x15F), ((0x53, 0x327), 0x15E),
      ((0x74, 0x327), 0x163), ((0x54, 0x327), 0x162)]"

definition compose_pair :: "nat \<Rightarrow> nat \<Rightarrow> nat option" where
  "compose_pair b m = map_of compose_table (b, m)"

fun compose_marks :: "ustring \<Rightarrow> ustring" where
  "compose_marks (b # m # cs) =
     (case compose_pair b m of
        Some c \<Rightarrow> c # compose_marks cs
      | None \<Rightarrow> b # compose_marks (m # cs))"
| "compose_marks cs = cs"

definition py_unicode :: unicode_lib where
  "py_unicode = \<lparr>str_lower = map lower_cp, normalize_NFC = compose_marks\<rparr>"

section \<open>Mapping modes\<close>

definition PHONEME_MAP :: "nat \<rightharpoonup> ustring" where
  "PHONEME_MAP = map_of
     [(0x219, ascii ''sh''), (0x218, ascii ''sh''), (0x15F, ascii ''sh''), (0x15E, ascii ''sh''),
      (0x21B, ascii ''ts''), (0x21A, ascii ''ts''), (0x163, ascii ''ts''), (0x162, ascii ''ts''),
      (0x102, [0x103]), (0xC2, [0xE2]), (0xCE, [0xEE])]"

definition ASCII_MAP :: "nat \<rightharpoonup> ustring" where
  "ASCII_MAP = map_of
     [(0x219, ascii ''sh''), (0x218, ascii ''sh''), (0x15F, ascii ''sh''), (0x15E, ascii ''sh''),
      (0x21B, ascii ''ts''), (0x21A, ascii ''ts''), (0x163, ascii ''ts''), (0x162, ascii ''ts''),
      (0x103, ascii ''a''), (0x102, ascii ''a''),
      (0xE2, ascii ''a''), (0xC2, ascii ''a''),
      (0xEE, ascii ''i''), (0xCE, ascii ''i'')]"

text \<open>
  The mode is any Python string; only the comparison with \<open>"phoneme"\<close> is made
  (\<open>char_map = PHONEME_MAP if mode == "phoneme" else ASCII_MAP\<close>).
\<close>

definition select_map :: "ustring \<Rightarrow> (nat \<rightharpoonup> ustring)" where
  "select_map mode = (if mode = ascii ''phoneme'' then PHONEME_MAP else ASCII_MAP)"

text \<open>
  The loop \<open>for ch in text\<close>: \<open>result\<close> is the list of pieces appended so far; the
  lookup \<open>char_map[ch]\<close> is made only under \<open>ch in char_map\<close>.
\<close>

fun map_loop :: "(nat \<rightharpoonup> ustring) \<Rightarrow> ustring \<Rightarrow> ustring list \<Rightarrow> ustring list" where
  "map_loop char_map [] result = result"
| "map_loop char_map (ch # text) result =
     (case char_map ch of
        Some r \<Rightarrow> map_loop char_map text (result @ [r])
      | None \<Rightarrow> map_loop char_map text (result @ [[ch]]))"

definition preprocess_romanian :: "unicode_lib \<Rightarrow> ustring \<Rightarrow> bool \<Rightarrow> ustring \<Rightarrow> ustring" where
  "preprocess_romanian U text lowercase mode =
     (if text = [] then text
      else
        let char_map = select_map mode;
            text1 = concat (map_loop char_map text []);
            text2 = (if lowercase then str_lower U text1 else text1)
        in normalize_NFC U text2)"

section \<open>Python string operations used by the normalizer\<close>

text \<open>
  \<open>str.split()\<close> without arguments splits at runs of whitespace: the code points for
  which \<open>str.isspace()\<close> holds.
\<close>

definition py_isspace :: "nat \<Rightarrow> bool" where
  "py_isspace c =
     ((0x09 \<le> c \<and> c \<le> 0x0D) \<or> (0x1C \<le> c \<and> c \<le> 0x20) \<or> c = 0x85 \<or> c = 0xA0
      \<or> c = 0x1680 \<or> (0x2000 \<le> c \<and> c \<le> 0x200A) \<or> c = 0x2028 \<or> c = 0x2029
      \<or> c = 0x202F \<or> c = 0x205F \<or> c = 0x3000)"

text \<open>\<open>word\<close> is the word being read; an empty word is never emitted.\<close>

fun split_loop :: "ustring \<Rightarrow> ustring \<Rightarrow> ustring list" where
  "split_loop word [] = (if word = [] then [] else [word])"
| "split_loop word (c # cs) =
     (if py_isspace c
      then (if word = [] then split_loop [] cs else word # split_loop [] cs)
      else split_loop (word @ [c]) cs)"

definition str_split :: "ustring \<Rightarrow> ustring list" where
  "str_split text = split_loop [] text"

fun str_join :: "ustring \<Rightarrow> ustring list \<Rightarrow> ustring" where
  "str_join sep [] = []"
| "str_join sep [w] = w"
| "str_join sep (w # v # ws) = w @ sep @ str_join sep (v # ws)"

text \<open>
  \<open>text.replace(old, new)\<close>: the occurrences of \<open>old\<close> are found from the left and do
  not overlap. With an empty \<open>old\<close>, Python puts \<open>new\<close> before every character and at
  the end.
\<close>

function replace_scan :: "ustring \<Rightarrow> ustring \<Rightarrow> ustring \<Rightarrow> ustring" where
  "replace_scan old new [] = []"
| "replace_scan old new (c # cs) =
     (if old \<noteq> [] \<and> take (length old) (c # cs) = old
      then new @ replace_scan old new (drop (length old) (c # cs))
      else c # replace_scan old new cs)"
  by pat_completeness auto
termination
  by (relation "measure (\<lambda>(old, new, text). length text)") auto

definition str_replace :: "ustring \<Rightarrow> ustring \<Rightarrow> ustring \<Rightarrow> ustring" where
  "str_replace old new text =
     (if old = [] then new @ concat (map (\<lambda>c. c # new) text)
      else replace_scan old new text)"

definition str_rstrip :: "ustring \<Rightarrow> ustring \<Rightarrow> ustring" where
  "str_rstrip chars text = rev (dropWhile (\<lambda>c. c \<in> set chars) (rev text))"

definition str_endswith :: "ustring \<Rightarrow> ustring \<Rightarrow> bool" where
  "str_endswith text p =
     (length p \<le> length text \<and> drop (length text - length p) text = p)"

section \<open>Punctuation normalization\<close>

definition fallback_sentence :: ustring where
  "fallback_sentence = ascii ''you need to add some text for me to talk.''"

definition punc_to_replace :: "(ustring \<times> ustring) list" where
  "punc_to_replace =
     [(ascii ''...'', ascii '', ''),
      ([0x2026], ascii '', ''),
      (ascii '':'', ascii '',''),
      (ascii '' - '', ascii '', ''),
      (ascii '';'', ascii '', ''),
      ([0x2014], ascii ''-''),
      ([0x2013], ascii ''-''),
      (ascii '' ,'', ascii '',''),
      ([0x201C], [0x22]),
      ([0x201D], [0x22]),
      ([0x2018], [0x27]),
      ([0x2019], [0x27]),
      ([0x201E], [0x22]),
      ([0x201F], [0x22])]"

fun replace_loop :: "(ustring \<times> ustring) list \<Rightarrow> ustring \<Rightarrow> ustring" where
  "replace_loop [] text = text"
| "replace_loop ((old_char_sequence, new_char) # rest) text =
     replace_loop rest (str_replace old_char_sequence new_char text)"

definition sentence_enders :: "ustring set" where
  "sentence_enders = {ascii ''.'', ascii ''!'', ascii ''?'', ascii ''-'', ascii '',''}"

text \<open>
  \<open>sentence_enders\<close> is a set literal, and Python fixes no order for the iteration of a
  set (the hashes of strings differ from one process to the next). A run of
  \<open>any(text.endswith(p) for p in sentence_enders)\<close> visits the elements in some order:
  \<open>iteration_of order S\<close> says that \<open>order\<close> lists \<open>S\<close>, each element once.
\<close>

definition iteration_of :: "'a list \<Rightarrow> 'a set \<Rightarrow> bool" where
  "iteration_of order S = (set order = S \<and> distinct order)"

fun any_endswith :: "ustring \<Rightarrow> ustring list \<Rightarrow> bool" where
  "any_endswith text [] = False"
| "any_endswith text (p # ps) = (if str_endswith text p then True else any_endswith text ps)"

definition punc_norm_romanian :: "ustring list \<Rightarrow> ustring \<Rightarrow> ustring" where
  "punc_norm_romanian order text =
     (if length text = 0 then fallback_sentence
      else
        let text1 = str_join (ascii '' '') (str_split text);
            text2 = replace_loop punc_to_replace text1;
            text3 = str_rstrip (ascii '' '') text2
        in if \<not> any_endswith text3 order then text3 @ ascii ''.'' else text3)"

definition preprocess_and_normalize ::
  "unicode_lib \<Rightarrow> ustring list \<Rightarrow> ustring \<Rightarrow> bool \<Rightarrow> ustring \<Rightarrow> ustring" where
  "preprocess_and_normalize U order text lowercase mode =
     punc_norm_romanian order (preprocess_romanian U text lowercase mode)"

section \<open>Vocabulary coverage\<close>

text \<open>
  The vocabulary is a dictionary from token to id; \<open>ch in vocab\<close> asks whether the
  one-character string is a key. \<open>sorted\<close> of a set of characters is the list of its
  code points in increasing order. In the source \<open>coverage_pct\<close> is a double,
  \<open>len(covered) / max(len(unique_chars), 1) * 100\<close>, rounded after the division and
  again after the multiplication. Doubles are not modelled: the field holds the two
  integer operands, \<open>len(covered)\<close> and \<open>max(len(unique_chars), 1)\<close>.
\<close>

record coverage_report =
  covered :: "nat list"
  missing :: "nat list"
  coverage_pct :: "nat \<times> nat"
  total_unique :: nat

definition check_vocab_coverage :: "ustring \<Rightarrow> (ustring \<rightharpoonup> nat) \<Rightarrow> coverage_report" where
  "check_vocab_coverage text vocab =
     (let unique_chars = set (str_replace (ascii '' '') [] text);
          covered_set = Set.filter (\<lambda>ch. vocab [ch] \<noteq> None) unique_chars;
          missing_set = unique_chars - covered_set
      in \<lparr>covered = sorted_list_of_set covered_set,
          missing = sorted_list_of_set missing_set,
          coverage_pct = (card covered_set, max (card unique_chars) 1),
          total_unique = card unique_chars\<rparr>)"

section \<open>Metadata CSV\<close>

text \<open>
  The writer is \<open>csv.writer(fout, delimiter='|', quoting=csv.QUOTE_NONE)\<close>: quote
  character \<open>"\<close>, line terminator CR LF and no escape character. It joins the fields
  with the delimiter and never quotes; a field holding the delimiter, the quote
  character or a character of the line terminator would need an escape character, and
  a record that is one empty field would need quotes: in both cases \<open>writerow\<close>
  raises \<open>csv.Error\<close>.
\<close>

datatype csv_error = NeedToEscape | EmptyRecordMustBeQuoted

definition needs_escape :: "nat \<Rightarrow> bool" where
  "needs_escape c = (c = 0x7C \<or> c = 0x22 \<or> c = 0x0D \<or> c = 0x0A)"

definition writer_writerow :: "ustring list \<Rightarrow> csv_error + ustring" where
  "writer_writerow row =
     (if list_ex (list_ex needs_escape) row then Inl NeedToEscape
      else if row = [[]] then Inl EmptyRecordMustBeQuoted
      else Inr (str_join [0x7C] row @ [0x0D, 0x0A]))"

definition process_row :: "unicode_lib \<Rightarrow> ustring \<Rightarrow> bool \<Rightarrow> ustring list \<Rightarrow> ustring list" where
  "process_row U mode lowercase row =
     (if length row \<ge> 3 then
        let row1 = row[1 := preprocess_romanian U (row ! 1) lowercase mode]
        in row1[2 := preprocess_romanian U (row1 ! 2) lowercase mode]
      else if length row \<ge> 2 then
        row[1 := preprocess_romanian U (row ! 1) lowercase mode]
      else row)"

text \<open>
  \<open>rows\<close> are the records that the reader yields for the input file, in order;
  \<open>fout\<close> is the text written so far. An error of the writer ends the run: the
  result is what was written before it, and the error in place of the count.
\<close>

fun csv_loop ::
  "unicode_lib \<Rightarrow> ustring \<Rightarrow> bool \<Rightarrow> ustring list list \<Rightarrow> ustring \<Rightarrow> nat
     \<Rightarrow> ustring \<times> (csv_error + nat)" where
  "csv_loop U mode lowercase [] fout processed_count = (fout, Inr processed_count)"
| "csv_loop U mode lowercase (row # rows) fout processed_count =
     (case writer_writerow (process_row U mode lowercase row) of
        Inl e \<Rightarrow> (fout, Inl e)
      | Inr line \<Rightarrow> csv_loop U mode lowercase rows (fout @ line) (processed_count + 1))"

definition preprocess_metadata_csv ::
  "unicode_lib \<Rightarrow> ustring list list \<Rightarrow> ustring \<Rightarrow> bool \<Rightarrow> ustring \<times> (csv_error + nat)" where
  "preprocess_metadata_csv U rows mode lowercase = csv_loop U mode lowercase rows [] 0"

section \<open>Evaluation rules\<close>

lemmas lib_evals = py_unicode_def lower_cp_def compose_pair_def compose_table_def

lemmas map_evals = ascii_def select_map_def PHONEME_MAP_def ASCII_MAP_def

section \<open>The character mapping\<close>

text \<open>The loop computes the concatenation of the images of the characters.\<close>

lemma concat_map_loop:
  "concat (map_loop char_map cs result) =
     concat result @ concat (map (\<lambda>ch. case char_map ch of None \<Rightarrow> [ch] | Some r \<Rightarrow> r) cs)"
  by (induction cs arbitrary: result) (simp_all split: option.splits)

lemma map_loop_Cons_None:
  "char_map ch = None \<Longrightarrow>
     concat (map_loop char_map (ch # cs) []) = ch # concat (map_loop char_map cs [])"
  by (simp add: concat_map_loop)

lemma map_loop_Cons_Some:
  "char_map ch = Some r \<Longrightarrow>
     concat (map_loop char_map (ch # cs) []) = r @ concat (map_loop char_map cs [])"
  by (simp add: concat_map_loop)

lemma map_loop_append:
  "concat (map_loop char_map (xs @ ys) []) =
     concat (map_loop char_map xs []) @ concat (map_loop char_map ys [])"
  by (simp add: concat_map_loop)

lemma map_loop_no_keys:
  "list_all (\<lambda>ch. char_map ch = None) cs \<Longrightarrow> concat (map_loop char_map cs []) = cs"
  by (induction cs) (simp_all add: concat_map_loop)

text \<open>No replacement string of a map holds a key of the same map.\<close>

lemma phoneme_values_no_keys:
  "PHONEME_MAP ch = Some r \<Longrightarrow> list_all (\<lambda>c. PHONEME_MAP c = None) r"
  by (auto simp: PHONEME_MAP_def ascii_def split: if_splits)

lemma ascii_values_no_keys:
  "ASCII_MAP ch = Some r \<Longrightarrow> list_all (\<lambda>c. ASCII_MAP c = None) r"
  by (auto simp: ASCII_MAP_def ascii_def split: if_splits)

lemma select_map_values_no_keys:
  "select_map mode ch = Some r \<Longrightarrow> list_all (\<lambda>c. select_map mode c = None) r"
  by (simp add: select_map_def phoneme_values_no_keys ascii_values_no_keys split: if_splits)

lemma map_loop_output_no_keys:
  "list_all (\<lambda>c. select_map mode c = None) (concat (map_loop (select_map mode) cs []))"
proof (induction cs)
  case Nil
  show ?case by simp
next
  case (Cons ch cs)
  show ?case
  proof (cases "select_map mode ch")
    case None
    with Cons show ?thesis by (simp add: map_loop_Cons_None del: map_loop.simps)
  next
    case (Some r)
    with Cons show ?thesis
      by (simp add: map_loop_Cons_Some select_map_values_no_keys del: map_loop.simps)
  qed
qed

text \<open>The substitution loop alone is idempotent, in both modes.\<close>

lemma map_loop_idempotent:
  "concat (map_loop (select_map mode) (concat (map_loop (select_map mode) cs [])) []) =
     concat (map_loop (select_map mode) cs [])"
  by (rule map_loop_no_keys) (rule map_loop_output_no_keys)

subsection \<open>C1: the docstring example\<close>

text \<open>
  C1, as amended. The input is U+0218 t i i n U+021B U+0103, space, U+0219 i, space,
  U+00EE n U+021B e l e p c i u n e, full stop. In phoneme mode with lowercasing the
  result is \<open>shtiints\<close> U+0103 \<open> shi \<close> U+00EE \<open>ntselepciune.\<close>: the two letters
  with comma below become \<open>sh\<close> and \<open>ts\<close>, the letters U+0103 and U+00EE are kept
  (PHONEME_MAP has no entry for the lower-case vowels) and \<open>c\<close> is kept. This holds
  for every library whose \<open>lower\<close> and NFC leave that string, which is lower-case
  and precomposed, as it is.
\<close>

theorem preprocess_romanian_example:
  assumes "str_lower U (ascii ''shtiints'' @ [0x103] @ ascii '' shi '' @ [0xEE] @ ascii ''ntselepciune.'')
            = ascii ''shtiints'' @ [0x103] @ ascii '' shi '' @ [0xEE] @ ascii ''ntselepciune.''"
    and "normalize_NFC U (ascii ''shtiints'' @ [0x103] @ ascii '' shi '' @ [0xEE] @ ascii ''ntselepciune.'')
            = ascii ''shtiints'' @ [0x103] @ ascii '' shi '' @ [0xEE] @ ascii ''ntselepciune.''"
  shows "preprocess_romanian U
     [0x218, 0x74, 0x69, 0x69, 0x6E, 0x21B, 0x103, 0x20, 0x219, 0x69, 0x20,
      0xEE, 0x6E, 0x21B, 0x65, 0x6C, 0x65, 0x70, 0x63, 0x69, 0x75, 0x6E, 0x65, 0x2E]
     True (ascii ''phoneme'')
   = ascii ''shtiints'' @ [0x103] @ ascii '' shi '' @ [0xEE] @ ascii ''ntselepciune.''"
  using assms by (simp add: preprocess_romanian_def map_evals)

text \<open>The run of C1 with the library \<open>py_unicode\<close>.\<close>

theorem preprocess_romanian_example_witness:
  "preprocess_romanian py_unicode
     [0x218, 0x74, 0x69, 0x69, 0x6E, 0x21B, 0x103, 0x20, 0x219, 0x69, 0x20,
      0xEE, 0x6E, 0x21B, 0x65, 0x6C, 0x65, 0x70, 0x63, 0x69, 0x75, 0x6E, 0x65, 0x2E]
     True (ascii ''phoneme'')
   = ascii ''shtiints'' @ [0x103] @ ascii '' shi '' @ [0xEE] @ ascii ''ntselepciune.''"
  by (rule preprocess_romanian_example [of py_unicode]) (simp_all add: ascii_def lib_evals)

text \<open>
  C1 as stated fails: the result is not \<open>shtiiintsa shi intseleptsiune.\<close>, the string
  of the docstring, which has a third \<open>i\<close>, plain \<open>a\<close> and \<open>i\<close> for the two vowels and
  \<open>ts\<close> for \<open>c\<close>.
\<close>

theorem preprocess_romanian_example_counterexample:
  "preprocess_romanian py_unicode
     [0x218, 0x74, 0x69, 0x69, 0x6E, 0x21B, 0x103, 0x20, 0x219, 0x69, 0x20,
      0xEE, 0x6E, 0x21B, 0x65, 0x6C, 0x65, 0x70, 0x63, 0x69, 0x75, 0x6E, 0x65, 0x2E]
     True (ascii ''phoneme'')
   \<noteq> ascii ''shtiiintsa shi intseleptsiune.''"
  by (simp add: preprocess_romanian_def map_evals lib_evals)

subsection \<open>C2: characters outside the map\<close>

text \<open>
  Without lowercasing, the result is the NFC normalization of the string that the
  substitution loop builds.
\<close>

lemma preprocess_romanian_no_lowercase:
  "t \<noteq> [] \<Longrightarrow>
     preprocess_romanian U t False mode =
       normalize_NFC U (concat (map_loop (select_map mode) t []))"
  by (simp add: preprocess_romanian_def)

text \<open>
  C2, as amended. Without lowercasing, and whenever NFC leaves the string built by the
  substitution loop as it is, a character \<open>ch\<close> of the input that is not a key of the
  selected map is in the output, unchanged and at its place: the output is the image of
  what precedes \<open>ch\<close>, then \<open>ch\<close> itself, then the image of what follows it.
\<close>

theorem preprocess_romanian_passthrough:
  assumes "select_map mode ch = None"
    and "normalize_NFC U (concat (map_loop (select_map mode) (xs @ ch # ys) [])) =
           concat (map_loop (select_map mode) (xs @ ch # ys) [])"
  shows "preprocess_romanian U (xs @ ch # ys) False mode =
           concat (map_loop (select_map mode) xs []) @ ch #
           concat (map_loop (select_map mode) ys [])"
proof -
  have "preprocess_romanian U (xs @ ch # ys) False mode =
          concat (map_loop (select_map mode) (xs @ ch # ys) [])"
    using assms(2) by (simp add: preprocess_romanian_no_lowercase del: map_loop.simps)
  also have "\<dots> = concat (map_loop (select_map mode) xs []) @
                   concat (map_loop (select_map mode) (ch # ys) [])"
    by (rule map_loop_append)
  also have "concat (map_loop (select_map mode) (ch # ys) []) =
               ch # concat (map_loop (select_map mode) ys [])"
    using assms(1) by (rule map_loop_Cons_None)
  finally show ?thesis .
qed

text \<open>
  C2 at the input U+021A \<open>a\<close> U+0219 in phoneme mode: \<open>a\<close> is not a key, NFC leaves
  \<open>tsash\<close> as it is, and the result is \<open>ts\<close>, \<open>a\<close>, \<open>sh\<close>.
\<close>

theorem preprocess_romanian_passthrough_witness:
  "select_map (ascii ''phoneme'') 0x61 = None \<and>
   normalize_NFC py_unicode (concat (map_loop (select_map (ascii ''phoneme'')) ([0x21A] @ 0x61 # [0x219]) [])) =
     concat (map_loop (select_map (ascii ''phoneme'')) ([0x21A] @ 0x61 # [0x219]) []) \<and>
   preprocess_romanian py_unicode ([0x21A] @ 0x61 # [0x219]) False (ascii ''phoneme'') =
     ascii ''ts'' @ 0x61 # ascii ''sh''"
proof -
  have h1: "select_map (ascii ''phoneme'') 0x61 = None" by (simp add: map_evals)
  have h2: "normalize_NFC py_unicode
              (concat (map_loop (select_map (ascii ''phoneme'')) ([0x21A] @ 0x61 # [0x219]) [])) =
            concat (map_loop (select_map (ascii ''phoneme'')) ([0x21A] @ 0x61 # [0x219]) [])"
    by (simp add: map_evals lib_evals)
  have l: "concat (map_loop (select_map (ascii ''phoneme'')) [0x21A] []) = ascii ''ts''"
    by (simp add: map_evals)
  have r: "concat (map_loop (select_map (ascii ''phoneme'')) [0x219] []) = ascii ''sh''"
    by (simp add: map_evals)
  show ?thesis
    using h1 h2 preprocess_romanian_passthrough [OF h1 h2] unfolding l r by simp
qed

text \<open>
  C2 as stated fails: in the input \<open>a\<close> U+0306 (the letter and a combining breve) the
  letter \<open>a\<close> is not a key of PHONEME_MAP, and it does not occur in the output, which is
  the one character U+0103 that NFC composes.
\<close>

theorem preprocess_romanian_passthrough_counterexample:
  "select_map (ascii ''phoneme'') 0x61 = None \<and> 0x61 \<in> set [0x61, 0x306 :: nat]
   \<and> 0x61 \<notin> set (preprocess_romanian py_unicode [0x61, 0x306] False (ascii ''phoneme''))"
  by (simp add: preprocess_romanian_def map_evals lib_evals)

subsection \<open>C5: idempotence\<close>

text \<open>
  C5 says that a second pass over the output of \<open>preprocess_romanian\<close> changes
  nothing. It fails on decomposed letters, because NFC composes them after the map has
  been applied. In phoneme mode the input \<open>s\<close> U+0326 (the letter and a combining comma
  below) holds no key: the first pass returns U+0219, the letter that the map sends to
  \<open>sh\<close>, and the second pass returns \<open>sh\<close>, which is also what one pass returns for
  the precomposed U+0219. In ascii mode the input \<open>a\<close> U+0306 gives U+0103 and then
  \<open>a\<close>.
\<close>

theorem preprocess_romanian_decomposed_second_pass:
  "preprocess_romanian py_unicode [0x73, 0x326] True (ascii ''phoneme'') = [0x219] \<and>
   preprocess_romanian py_unicode [0x219] True (ascii ''phoneme'') = ascii ''sh'' \<and>
   preprocess_romanian py_unicode
      (preprocess_romanian py_unicode [0x73, 0x326] True (ascii ''phoneme'')) True (ascii ''phoneme'')
    \<noteq> preprocess_romanian py_unicode [0x73, 0x326] True (ascii ''phoneme'') \<and>
   preprocess_romanian py_unicode [0x61, 0x306] True (ascii ''ascii'') = [0x103] \<and>
   preprocess_romanian py_unicode [0x103] True (ascii ''ascii'') = ascii ''a'' \<and>
   preprocess_romanian py_unicode
      (preprocess_romanian py_unicode [0x61, 0x306] True (ascii ''ascii'')) True (ascii ''ascii'')
    \<noteq> preprocess_romanian py_unicode [0x61, 0x306] True (ascii ''ascii'')"
  by (simp add: preprocess_romanian_def map_evals lib_evals)

subsection \<open>C9: modes other than phoneme\<close>

text \<open>
  C9. For every mode string other than \<open>"phoneme"\<close> the ASCII map is selected, and
  \<open>preprocess_romanian\<close> returns what it returns in mode \<open>"ascii"\<close>, for every text
  and either value of the lowercase flag. The function has no error result.
\<close>

theorem preprocess_romanian_unknown_mode:
  assumes "mode \<noteq> ascii ''phoneme''"
  shows "select_map mode = ASCII_MAP \<and>
         preprocess_romanian U t lowercase mode =
           preprocess_romanian U t lowercase (ascii ''ascii'')"
  using assms by (simp add: preprocess_romanian_def select_map_def ascii_def)

text \<open>C9 at the mode \<open>"Phoneme"\<close> and the input U+021A \<open>ar\<close> U+0103: the result is \<open>tsara\<close>.\<close>

theorem preprocess_romanian_unknown_mode_witness:
  "ascii ''Phoneme'' \<noteq> ascii ''phoneme'' \<and> select_map (ascii ''Phoneme'') = ASCII_MAP \<and>
   preprocess_romanian py_unicode [0x21A, 0x61, 0x72, 0x103] True (ascii ''Phoneme'') =
     preprocess_romanian py_unicode [0x21A, 0x61, 0x72, 0x103] True (ascii ''ascii'') \<and>
   preprocess_romanian py_unicode [0x21A, 0x61, 0x72, 0x103] True (ascii ''Phoneme'') = ascii ''tsara''"
proof -
  have h: "ascii ''Phoneme'' \<noteq> ascii ''phoneme''" by (simp add: ascii_def)
  have e: "preprocess_romanian py_unicode [0x21A, 0x61, 0x72, 0x103] True (ascii ''ascii'') = ascii ''tsara''"
    by (simp add: preprocess_romanian_def map_evals lib_evals)
  show ?thesis
    using h e preprocess_romanian_unknown_mode [OF h, of py_unicode "[0x21A, 0x61, 0x72, 0x103]" True]
    by simp
qed

section \<open>The punctuation normalizer\<close>

text \<open>The loop of \<open>any\<close> finds an ending whatever the order of the iteration.\<close>

lemma any_endswith_iff: "any_endswith t ps \<longleftrightarrow> (\<exists>p \<in> set ps. str_endswith t p)"
  by (induction ps) simp_all

lemma any_endswith_order:
  assumes "set order1 = set order2"
  shows "any_endswith t order1 = any_endswith t order2"
  unfolding any_endswith_iff assms ..

lemma punc_norm_order:
  assumes "set order1 = set order2"
  shows "punc_norm_romanian order1 t = punc_norm_romanian order2 t"
  unfolding punc_norm_romanian_def any_endswith_order [OF assms] ..

lemma str_endswith_single: "str_endswith t [c] \<longleftrightarrow> t \<noteq> [] \<and> last t = c"
proof (cases t rule: rev_cases)
  case Nil
  then show ?thesis by (simp add: str_endswith_def)
next
  case (snoc ys y)
  then show ?thesis by (auto simp: str_endswith_def)
qed

lemma sentence_enders_single: "p \<in> sentence_enders \<Longrightarrow> \<exists>c. p = [c]"
  by (auto simp: sentence_enders_def ascii_def)

lemma full_stop_ender: "ascii ''.'' \<in> sentence_enders"
  by (simp add: sentence_enders_def)

lemma add_ender:
  assumes "set order = sentence_enders"
  shows "(if \<not> any_endswith t order then t @ ascii ''.'' else t) \<noteq> [] \<and>
         [last (if \<not> any_endswith t order then t @ ascii ''.'' else t)] \<in> sentence_enders"
proof (cases "any_endswith t order")
  case True
  then obtain p where p: "p \<in> sentence_enders" "str_endswith t p"
    using assms by (auto simp: any_endswith_iff)
  from p(1) obtain c where c: "p = [c]" using sentence_enders_single by blast
  from p(2) c have "t \<noteq> []" "last t = c" by (simp_all add: str_endswith_single)
  with True p(1) c show ?thesis by simp
next
  case False
  have "[last (t @ ascii ''.'')] = ascii ''.''" by (simp add: ascii_def)
  with False show ?thesis using full_stop_ender by (simp add: ascii_def)
qed

lemma fallback_ender:
  "fallback_sentence \<noteq> [] \<and> [last fallback_sentence] \<in> sentence_enders"
  by (simp add: fallback_sentence_def sentence_enders_def ascii_def)

lemma split_loop_whitespace: "list_all py_isspace cs \<Longrightarrow> split_loop [] cs = []"
  by (induction cs) simp_all

lemma replace_loop_empty: "replace_loop punc_to_replace [] = []"
  by (simp add: punc_to_replace_def str_replace_def ascii_def)

lemma any_endswith_empty:
  assumes "set order = sentence_enders"
  shows "\<not> any_endswith [] order"
proof -
  have "\<not> str_endswith [] p" if "p \<in> sentence_enders" for p
    using sentence_enders_single [OF that] by (auto simp: str_endswith_def)
  with assms show ?thesis by (simp add: any_endswith_iff)
qed

text \<open>Two orders in which a run may iterate \<open>sentence_enders\<close>.\<close>

lemma order_forward:
  "iteration_of [ascii ''.'', ascii ''!'', ascii ''?'', ascii ''-'', ascii '',''] sentence_enders"
  by (simp add: iteration_of_def sentence_enders_def ascii_def)

lemma order_backward:
  "iteration_of [ascii '','', ascii ''-'', ascii ''?'', ascii ''!'', ascii ''.''] sentence_enders"
  by (auto simp: iteration_of_def sentence_enders_def ascii_def)

subsection \<open>C3: the result ends in a sentence ender\<close>

text \<open>
  C3. For every input string, the empty one and those of whitespace only included, and
  for every order in which the run iterates \<open>sentence_enders\<close>, the result of
  \<open>punc_norm_romanian\<close> is not empty and its last character is one of
  \<open>.\<close>, \<open>!\<close>, \<open>?\<close>, \<open>-\<close> and \<open>,\<close>.
\<close>

theorem punc_norm_romanian_ends_with_ender:
  assumes "iteration_of order sentence_enders"
  shows "punc_norm_romanian order t \<noteq> [] \<and>
         [last (punc_norm_romanian order t)] \<in> sentence_enders"
proof (cases "t = []")
  case True
  then show ?thesis using fallback_ender by (simp add: punc_norm_romanian_def)
next
  case False
  from assms have "set order = sentence_enders" by (simp add: iteration_of_def)
  from add_ender [OF this] False show ?thesis
    by (simp add: punc_norm_romanian_def Let_def)
qed

text \<open>C3 at the input \<open>Hello world\<close>, with the set iterated from the comma backwards.\<close>

theorem punc_norm_romanian_ends_with_ender_witness:
  "iteration_of [ascii '','', ascii ''-'', ascii ''?'', ascii ''!'', ascii ''.''] sentence_enders \<and>
   punc_norm_romanian [ascii '','', ascii ''-'', ascii ''?'', ascii ''!'', ascii ''.''] (ascii ''Hello world'') \<noteq> [] \<and>
   [last (punc_norm_romanian [ascii '','', ascii ''-'', ascii ''?'', ascii ''!'', ascii ''.''] (ascii ''Hello world''))]
      \<in> sentence_enders"
  using order_backward
    punc_norm_romanian_ends_with_ender [OF order_backward, of "ascii ''Hello world''"]
  by simp

subsection \<open>C4: the empty input\<close>

text \<open>
  C4. On the empty string \<open>punc_norm_romanian\<close> returns the fixed sentence
  \<open>you need to add some text for me to talk.\<close>, not the empty string.
\<close>

theorem punc_norm_romanian_empty:
  "punc_norm_romanian order [] = ascii ''you need to add some text for me to talk.'' \<and>
   punc_norm_romanian order [] \<noteq> []"
  by (simp add: punc_norm_romanian_def fallback_sentence_def ascii_def)

subsection \<open>C10: input of whitespace only\<close>

text \<open>
  C10. For every non-empty string of whitespace characters, \<open>punc_norm_romanian\<close>
  returns the string \<open>.\<close> and not the fallback sentence: the split leaves no
  word, no substitution applies to the empty string, and the full stop is appended.
\<close>

theorem punc_norm_romanian_whitespace:
  assumes "t \<noteq> []" and "list_all py_isspace t" and "iteration_of order sentence_enders"
  shows "punc_norm_romanian order t = ascii ''.'' \<and>
         punc_norm_romanian order t \<noteq> fallback_sentence"
proof -
  from assms(3) have "set order = sentence_enders" by (simp add: iteration_of_def)
  then have "\<not> any_endswith [] order" by (rule any_endswith_empty)
  with assms(1,2) have "punc_norm_romanian order t = ascii ''.''"
    by (simp add: punc_norm_romanian_def str_split_def split_loop_whitespace
        replace_loop_empty str_rstrip_def)
  moreover have "ascii ''.'' \<noteq> fallback_sentence"
    by (simp add: fallback_sentence_def ascii_def)
  ultimately show ?thesis by simp
qed

text \<open>C10 at the input space, tab, line feed.\<close>

theorem punc_norm_romanian_whitespace_witness:
  "[0x20, 0x09, 0x0A] \<noteq> [] \<and> list_all py_isspace [0x20, 0x09, 0x0A] \<and>
   iteration_of [ascii ''.'', ascii ''!'', ascii ''?'', ascii ''-'', ascii '',''] sentence_enders \<and>
   punc_norm_romanian [ascii ''.'', ascii ''!'', ascii ''?'', ascii ''-'', ascii '',''] [0x20, 0x09, 0x0A] = ascii ''.'' \<and>
   punc_norm_romanian [ascii ''.'', ascii ''!'', ascii ''?'', ascii ''-'', ascii '',''] [0x20, 0x09, 0x0A] \<noteq> fallback_sentence"
proof -
  have w: "list_all py_isspace [0x20, 0x09, 0x0A]" by (simp add: py_isspace_def)
  have n: "[0x20, 0x09, 0x0A :: nat] \<noteq> []" by simp
  show ?thesis
    using order_forward w punc_norm_romanian_whitespace [OF n w order_forward]
    by (simp add: fallback_sentence_def ascii_def)
qed

section \<open>The pipeline\<close>

subsection \<open>C8: determinism\<close>

text \<open>
  C8. The pipeline reads its three arguments and nothing else that can change: the two
  maps and the substitution list are constants, and the one thing that differs from run
  to run is the order in which \<open>sentence_enders\<close> is iterated. Two runs on the same
  text, lowercase flag and mode return the same string, whatever the two orders are.
\<close>

theorem preprocess_and_normalize_deterministic:
  assumes "iteration_of order1 sentence_enders" and "iteration_of order2 sentence_enders"
  shows "preprocess_and_normalize U order1 t lowercase mode =
         preprocess_and_normalize U order2 t lowercase mode"
proof -
  from assms have "set order1 = set order2" by (simp add: iteration_of_def)
  then show ?thesis unfolding preprocess_and_normalize_def by (rule punc_norm_order)
qed

text \<open>C8 at the input U+021A \<open>ara\<close>, for a run forwards and a run backwards.\<close>

theorem preprocess_and_normalize_deterministic_witness:
  "iteration_of [ascii ''.'', ascii ''!'', ascii ''?'', ascii ''-'', ascii '',''] sentence_enders \<and>
   iteration_of [ascii '','', ascii ''-'', ascii ''?'', ascii ''!'', ascii ''.''] sentence_enders \<and>
   preprocess_and_normalize py_unicode [ascii ''.'', ascii ''!'', ascii ''?'', ascii ''-'', ascii '','']
       [0x21A, 0x61, 0x72, 0x61] True (ascii ''phoneme'') =
   preprocess_and_normalize py_unicode [ascii '','', ascii ''-'', ascii ''?'', ascii ''!'', ascii ''.'']
       [0x21A, 0x61, 0x72, 0x61] True (ascii ''phoneme'')"
  using order_forward order_backward
    preprocess_and_normalize_deterministic [OF order_forward order_backward,
      of py_unicode "[0x21A, 0x61, 0x72, 0x61]" True "ascii ''phoneme''"]
  by simp

section \<open>Vocabulary coverage\<close>

lemma replace_scan_single: "replace_scan [c] [] cs = filter (\<lambda>x. x \<noteq> c) cs"
  by (induction cs) simp_all

lemma set_remove_spaces: "set (str_replace (ascii '' '') [] cs) = set cs - {0x20}"
  by (auto simp: str_replace_def ascii_def replace_scan_single)

subsection \<open>C7: covered and missing\<close>

text \<open>
  C7, as amended. For every text and vocabulary, the covered characters and the missing
  characters are disjoint, and together they are the characters of the text other than
  the space U+0020. Other whitespace characters are not removed.
\<close>

theorem check_vocab_coverage_partition:
  "set (covered (check_vocab_coverage t vocab)) \<inter> set (missing (check_vocab_coverage t vocab)) = {} \<and>
   set (covered (check_vocab_coverage t vocab)) \<union> set (missing (check_vocab_coverage t vocab)) =
     set t - {0x20}"
proof -
  let ?u = "set (str_replace (ascii '' '') [] t)"
  let ?c = "Set.filter (\<lambda>ch. vocab [ch] \<noteq> None) ?u"
  have fc: "finite ?c" by simp
  have fm: "finite (?u - ?c)" by simp
  have c: "set (covered (check_vocab_coverage t vocab)) = ?c"
    using fc by (simp add: check_vocab_coverage_def Let_def)
  have m: "set (missing (check_vocab_coverage t vocab)) = ?u - ?c"
    using fm by (simp add: check_vocab_coverage_def Let_def)
  have "?c \<subseteq> ?u" by auto
  then have "?c \<inter> (?u - ?c) = {}" "?c \<union> (?u - ?c) = ?u" by auto
  then show ?thesis unfolding c m set_remove_spaces [symmetric] by simp
qed

text \<open>
  C7 as stated fails: for the text that is one tab and the empty vocabulary, the tab is
  reported as missing, so covered and missing together are not the characters of the
  text with whitespace excluded, of which there are none.
\<close>

theorem check_vocab_coverage_partition_counterexample:
  "set (covered (check_vocab_coverage [0x09] Map.empty)) \<union>
   set (missing (check_vocab_coverage [0x09] Map.empty))
     \<noteq> set (filter (\<lambda>c. \<not> py_isspace c) [0x09])"
  by (simp add: check_vocab_coverage_def Let_def str_replace_def ascii_def py_isspace_def)

section \<open>The metadata CSV\<close>

text \<open>What the loop does to one record.\<close>

lemma process_row_length: "length (process_row U mode lowercase row) = length row"
  by (simp add: process_row_def Let_def)

lemma process_row_field:
  assumes "i < length row"
  shows "process_row U mode lowercase row ! i =
           (if i = 1 \<or> i = 2 then preprocess_romanian U (row ! i) lowercase mode else row ! i)"
  using assms by (auto simp: process_row_def Let_def nth_list_update)

lemma process_row_short: "length row < 2 \<Longrightarrow> process_row U mode lowercase row = row"
  by (simp add: process_row_def)

text \<open>
  When the writer accepts every record, each record is written with its fields mapped as
  above, and the count of all the records is returned.
\<close>

lemma csv_loop_written:
  assumes "list_all (\<lambda>row. \<not> list_ex (list_ex needs_escape) (process_row U mode lowercase row)
                          \<and> process_row U mode lowercase row \<noteq> [[]]) rows"
  shows "csv_loop U mode lowercase rows fout n =
           (fout @ concat (map (\<lambda>row. str_join [0x7C] (process_row U mode lowercase row) @ [0x0D, 0x0A]) rows),
            Inr (n + length rows))"
  using assms
proof (induction rows arbitrary: fout n)
  case Nil
  show ?case by simp
next
  case (Cons row rows)
  from Cons.prems have ok: "writer_writerow (process_row U mode lowercase row) =
      Inr (str_join [0x7C] (process_row U mode lowercase row) @ [0x0D, 0x0A])"
    by (simp add: writer_writerow_def)
  from Cons.prems have rest:
    "list_all (\<lambda>row. \<not> list_ex (list_ex needs_escape) (process_row U mode lowercase row)
                          \<and> process_row U mode lowercase row \<noteq> [[]]) rows"
    by simp
  show ?case using Cons.IH [OF rest] ok by simp
qed

lemma preprocess_metadata_csv_written:
  assumes "list_all (\<lambda>row. \<not> list_ex (list_ex needs_escape) (process_row U mode lowercase row)
                          \<and> process_row U mode lowercase row \<noteq> [[]]) rows"
  shows "preprocess_metadata_csv U rows mode lowercase =
           (concat (map (\<lambda>row. str_join [0x7C] (process_row U mode lowercase row) @ [0x0D, 0x0A]) rows),
            Inr (length rows))"
  using csv_loop_written [OF assms, of "[]" 0] by (simp add: preprocess_metadata_csv_def)

subsection \<open>C6: a record with a double quote\<close>

text \<open>
  C6 says that every record of every pipe-delimited file is written and that the number
  of records is returned. For the file with the one line \<open>001|"da"|"da"\<close> the reader
  yields the record of the three fields \<open>001\<close>, \<open>"da"\<close> and \<open>"da"\<close>; the writer
  raises, nothing is written and no count is returned.
\<close>

theorem preprocess_metadata_csv_quote_fails:
  "preprocess_metadata_csv py_unicode
     [[ascii ''001'', [0x22, 0x64, 0x61, 0x22], [0x22, 0x64, 0x61, 0x22]]]
     (ascii ''phoneme'') True = ([], Inl NeedToEscape)"
  by (simp add: preprocess_metadata_csv_def process_row_def writer_writerow_def needs_escape_def
      preprocess_romanian_def map_evals lib_evals)

end
